theory Spec2Isabelle
  imports Main "HOL-Library.Word" "HOL-Library.Sublist"
begin

section \<open>Strings\<close>

text \<open>
  A JavaScript string is a sequence of 16-bit code units. Literals of the source are
  written through \<open>js\<close>, which maps every character of an ASCII literal to its code unit.
\<close>

type_synonym jsstring = "16 word list"

definition js :: "string \<Rightarrow> jsstring" where
  "js s = map (\<lambda>c. of_nat (of_char c)) s"

text \<open>
  \<open>String.prototype.trim\<close> removes WhiteSpace and LineTerminator code points from both
  ends: TAB, LF, VT, FF, CR, SPACE, NBSP, U+1680, U+2000..U+200A, U+2028, U+2029, U+202F,
  U+205F, U+3000 and U+FEFF. All of them are single code units.
\<close>

definition isWhiteSpace :: "16 word \<Rightarrow> bool" where
  "isWhiteSpace c =
     (c = 0x9 \<or> c = 0xA \<or> c = 0xB \<or> c = 0xC \<or> c = 0xD \<or> c = 0x20 \<or> c = 0xA0 \<or>
      c = 0x1680 \<or> (0x2000 \<le> c \<and> c \<le> 0x200A) \<or> c = 0x2028 \<or> c = 0x2029 \<or>
      c = 0x202F \<or> c = 0x205F \<or> c = 0x3000 \<or> c = 0xFEFF)"

definition trim :: "jsstring \<Rightarrow> jsstring" where
  "trim s = rev (dropWhile isWhiteSpace (rev (dropWhile isWhiteSpace s)))"

section \<open>Data model (types.ts)\<close>

text \<open>
  The interfaces \<open>Subtask\<close> and \<open>Todo\<close>. Both have fields \<open>id\<close>, \<open>text\<close> and
  \<open>completed\<close>; the fields of a subtask carry the prefix \<open>sub_\<close>, and \<open>id\<close> and \<open>text\<close>
  of a todo the prefix \<open>todo_\<close>. The optional field \<open>isGenerating?: boolean\<close> is
  \<open>None\<close> when the property is absent; it is truthy exactly when it is \<open>Some True\<close>.
\<close>

record subtask =
  sub_id :: jsstring
  sub_text :: jsstring
  sub_completed :: bool

record todo =
  todo_id :: jsstring
  todo_text :: jsstring
  completed :: bool
  isExpanded :: bool
  subtasks :: "subtask list"
  isGenerating :: "bool option"

text \<open>The enum \<open>FilterType\<close>; its members carry the prefix \<open>FILTER_\<close>.\<close>

datatype FilterType = FILTER_ALL | FILTER_ACTIVE | FILTER_COMPLETED

section \<open>Component state (App.tsx)\<close>

text \<open>The four \<open>useState\<close> cells of \<open>App\<close>. \<open>error\<close> is \<open>string | null\<close>.\<close>

record app_state =
  todos :: "todo list"
  inputText :: jsstring
  filterType :: FilterType
  error :: "jsstring option"

text \<open>
  The initializer of \<open>todos\<close>. \<open>localStorage.getItem\<close> gives \<open>null\<close> (here \<open>None\<close>)
  when the key is absent; \<open>if (saved)\<close> is also false for the empty string.
  \<open>JSON.parse\<close> is a built-in: it is the parameter \<open>parse\<close>, \<open>None\<close> where it throws a
  SyntaxError; what it returns is typed \<open>Todo[]\<close> by the \<open>useState\<close> annotation.
\<close>

definition initialTodos :: "(jsstring \<Rightarrow> todo list option) \<Rightarrow> jsstring option \<Rightarrow> todo list" where
  "initialTodos parse saved =
     (case saved of
        None \<Rightarrow> []
      | Some s \<Rightarrow>
          if s = [] then []
          else (case parse s of
                  Some v \<Rightarrow> v
                | None \<Rightarrow> []))"

subsection \<open>Handlers\<close>

text \<open>
  Every handler maps the state to the state after its \<open>set...\<close> calls. No handler throws
  or returns a value. \<open>crypto.randomUUID()\<close> is an argument: \<open>uuid\<close> is the value it
  returns.
\<close>

definition handleAddTodo :: "jsstring \<Rightarrow> app_state \<Rightarrow> app_state" where
  "handleAddTodo uuid st =
     (if trim (inputText st) = [] then st
      else
        let newTodo = \<lparr> todo_id = uuid, todo_text = trim (inputText st), completed = False,
                        isExpanded = False, subtasks = [], isGenerating = None \<rparr>
        in st\<lparr> todos := newTodo # todos st, inputText := [] \<rparr>)"

definition handleToggleTodo :: "jsstring \<Rightarrow> app_state \<Rightarrow> app_state" where
  "handleToggleTodo i st =
     st\<lparr> todos := map (\<lambda>todo.
        if todo_id todo = i then
          let newCompleted = \<not> completed todo;
              newSubtasks = (if newCompleted
                             then map (\<lambda>s. s\<lparr> sub_completed := True \<rparr>) (subtasks todo)
                             else subtasks todo)
          in todo\<lparr> completed := newCompleted, subtasks := newSubtasks \<rparr>
        else todo) (todos st) \<rparr>"

definition handleDeleteTodo :: "jsstring \<Rightarrow> app_state \<Rightarrow> app_state" where
  "handleDeleteTodo i st = st\<lparr> todos := filter (\<lambda>todo. todo_id todo \<noteq> i) (todos st) \<rparr>"

definition handleToggleSubtask :: "jsstring \<Rightarrow> jsstring \<Rightarrow> app_state \<Rightarrow> app_state" where
  "handleToggleSubtask todoId subtaskId st =
     st\<lparr> todos := map (\<lambda>todo.
        if todo_id todo \<noteq> todoId then todo
        else
          let newSubtasks = map (\<lambda>s. if sub_id s = subtaskId
                                      then s\<lparr> sub_completed := \<not> sub_completed s \<rparr> else s)
                                (subtasks todo);
              allSubComplete = list_all sub_completed newSubtasks
          in todo\<lparr> subtasks := newSubtasks,
                   completed := (allSubComplete \<and> length newSubtasks > 0) \<rparr>) (todos st) \<rparr>"

definition handleExpand :: "jsstring \<Rightarrow> app_state \<Rightarrow> app_state" where
  "handleExpand i st =
     st\<lparr> todos := map (\<lambda>t. if todo_id t = i then t\<lparr> isExpanded := \<not> isExpanded t \<rparr> else t)
                       (todos st) \<rparr>"

definition handleClearCompleted :: "app_state \<Rightarrow> app_state" where
  "handleClearCompleted st = st\<lparr> todos := filter (\<lambda>t. \<not> completed t) (todos st) \<rparr>"

definition filteredTodos :: "app_state \<Rightarrow> todo list" where
  "filteredTodos st =
     filter (\<lambda>todo.
        if filterType st = FILTER_ACTIVE then \<not> completed todo
        else if filterType st = FILTER_COMPLETED then completed todo
        else True) (todos st)"

section \<open>The decomposition service (geminiService.ts)\<close>

text \<open>
  What \<open>await ai.models.generateContent(...)\<close> does: it rejects, or it resolves with a
  response whose \<open>text\<close> is a string or \<open>undefined\<close>.
\<close>

datatype exn = ServiceError | SyntaxError

datatype response = Rejects exn | Resolves "jsstring option"

text \<open>
  What \<open>JSON.parse\<close> does on the response text: it throws, or it returns a value that
  \<open>Array.isArray\<close> accepts or refuses. The elements of the array are strings, as the
  response schema asks and the return type \<open>Promise<string[]>\<close> declares.
\<close>

datatype parsed = Throws | NotArray | Array "jsstring list"

text \<open>
  The settled promise of \<open>generateSubtasks\<close>: \<open>Inl\<close> when it rejects, \<open>Inr\<close> the array it
  resolves with. \<open>apiKey\<close> is the module constant read from the environment, \<open>parse\<close>
  stands for \<open>JSON.parse\<close> and \<open>resp\<close> for the outcome of the request.
\<close>

definition generateSubtasks ::
  "jsstring \<Rightarrow> (jsstring \<Rightarrow> parsed) \<Rightarrow> response \<Rightarrow> jsstring \<Rightarrow> exn + jsstring list" where
  "generateSubtasks apiKey parse resp taskText =
     (if apiKey = [] then
        Inr [js ''Research '' @ taskText,
             js ''Draft outline for '' @ taskText,
             js ''Review and finalize '' @ taskText]
      else
        (case resp of
           Rejects e \<Rightarrow> Inl e
         | Resolves jsonText \<Rightarrow>
             (case jsonText of
                None \<Rightarrow> Inr []
              | Some s \<Rightarrow>
                  if s = [] then Inr []
                  else (case parse s of
                          Throws \<Rightarrow> Inl SyntaxError
                        | NotArray \<Rightarrow> Inr []
                        | Array xs \<Rightarrow> Inr xs))))"

section \<open>Requesting a decomposition (App.tsx, TodoItem.tsx)\<close>

text \<open>
  \<open>handleGenerateSubtasks\<close> is asynchronous. Its first part runs up to the \<open>await\<close>: it
  marks the task, clears the error and calls \<open>generateSubtasks(text)\<close>; the second
  component of the result is the argument of that call. Other handlers may run before
  the promise settles.
\<close>

definition handleGenerateSubtasks_begin ::
  "jsstring \<Rightarrow> jsstring \<Rightarrow> app_state \<Rightarrow> app_state \<times> jsstring" where
  "handleGenerateSubtasks_begin i text_arg st =
     (st\<lparr> todos := map (\<lambda>t. if todo_id t = i then t\<lparr> isGenerating := Some True \<rparr> else t)
                        (todos st),
          error := None \<rparr>,
      text_arg)"

text \<open>
  Its second part runs once the promise has settled with \<open>result\<close>. \<open>uuids k\<close> is what
  \<open>crypto.randomUUID()\<close> returns for the element at index \<open>k\<close> of \<open>subtaskTexts\<close>.
\<close>

definition errorMessage :: jsstring where
  "errorMessage = js ''Failed to generate subtasks. Please try again or check your API key.''"

definition handleGenerateSubtasks_settle ::
  "jsstring \<Rightarrow> exn + jsstring list \<Rightarrow> (nat \<Rightarrow> jsstring) \<Rightarrow> app_state \<Rightarrow> app_state" where
  "handleGenerateSubtasks_settle i result uuids st =
     (case result of
        Inr subtaskTexts \<Rightarrow>
          let newSubtasks =
                map (\<lambda>(k, s). \<lparr> sub_id = uuids k, sub_text = s, sub_completed = False \<rparr>)
                    (enumerate 0 subtaskTexts)
          in st\<lparr> todos := map (\<lambda>t.
                  if todo_id t \<noteq> i then t
                  else t\<lparr> isGenerating := Some False, isExpanded := True,
                          subtasks := newSubtasks \<rparr>) (todos st) \<rparr>
      | Inl err \<Rightarrow>
          st\<lparr> error := Some errorMessage,
              todos := map (\<lambda>t. if todo_id t = i then t\<lparr> isGenerating := Some False \<rparr> else t)
                           (todos st) \<rparr>)"

text \<open>
  The Break Down button of \<open>TodoItem\<close>: it is rendered only when the task has no subtask
  and is not completed, and it is disabled while \<open>todo.isGenerating\<close> is truthy. A click
  reaches \<open>onGenerateSubtasks(todo.id, todo.text)\<close> only through a rendered, enabled
  button; the second component is the call of \<open>generateSubtasks\<close> it leads to, if any.
\<close>

definition breakDownRendered :: "todo \<Rightarrow> bool" where
  "breakDownRendered t = (length (subtasks t) = 0 \<and> \<not> completed t)"

definition breakDownDisabled :: "todo \<Rightarrow> bool" where
  "breakDownDisabled t = (isGenerating t = Some True)"

definition clickBreakDown :: "todo \<Rightarrow> app_state \<Rightarrow> app_state \<times> jsstring option" where
  "clickBreakDown t st =
     (if breakDownRendered t \<and> \<not> breakDownDisabled t
      then (let (st', call) = handleGenerateSubtasks_begin (todo_id t) (todo_text t) st
            in (st', Some call))
      else (st, None))"

section \<open>Events of the running application\<close>

text \<open>
  The application together with the calls of \<open>generateSubtasks\<close> whose promise has not
  settled yet: each entry of \<open>inflight\<close> is the task id and the text that the waiting
  continuation of \<open>handleGenerateSubtasks\<close> holds.
\<close>

record world =
  ui :: app_state
  inflight :: "(jsstring \<times> jsstring) list"

text \<open>
  What can happen: the events of the rendered elements, each calling the handler bound
  to it, and the settling of a promise. \<open>SubmitAdd\<close> carries the value of
  \<open>crypto.randomUUID()\<close>; \<open>ClickBreakDown k\<close> is a click on the Break Down button of the
  task at position \<open>k\<close>; \<open>Settle n result uuids\<close> settles the call at position \<open>n\<close> of
  \<open>inflight\<close> with \<open>result\<close>.
\<close>

datatype event =
    SetInputText jsstring
  | SubmitAdd jsstring
  | ClickToggle jsstring
  | ClickDelete jsstring
  | ClickSubtask jsstring jsstring
  | ClickExpand jsstring
  | ClickBreakDown nat
  | Settle nat "exn + jsstring list" "nat \<Rightarrow> jsstring"
  | ClickClearCompleted
  | SetFilter FilterType
  | DismissError

fun step :: "event \<Rightarrow> world \<Rightarrow> world" where
  "step (SetInputText s) w = w\<lparr> ui := (ui w)\<lparr> inputText := s \<rparr> \<rparr>"
| "step (SubmitAdd uuid) w = w\<lparr> ui := handleAddTodo uuid (ui w) \<rparr>"
| "step (ClickToggle i) w = w\<lparr> ui := handleToggleTodo i (ui w) \<rparr>"
| "step (ClickDelete i) w = w\<lparr> ui := handleDeleteTodo i (ui w) \<rparr>"
| "step (ClickSubtask i j) w = w\<lparr> ui := handleToggleSubtask i j (ui w) \<rparr>"
| "step (ClickExpand i) w = w\<lparr> ui := handleExpand i (ui w) \<rparr>"
| "step (ClickBreakDown k) w =
     (if k < length (todos (ui w)) then
        (case clickBreakDown (todos (ui w) ! k) (ui w) of
           (st', None) \<Rightarrow> w\<lparr> ui := st' \<rparr>
         | (st', Some call) \<Rightarrow>
             \<lparr> ui = st', inflight = inflight w @ [(todo_id (todos (ui w) ! k), call)] \<rparr>)
      else w)"
| "step (Settle n result uuids) w =
     (if n < length (inflight w) then
        \<lparr> ui = handleGenerateSubtasks_settle (fst (inflight w ! n)) result uuids (ui w),
          inflight = take n (inflight w) @ drop (Suc n) (inflight w) \<rparr>
      else w)"
| "step ClickClearCompleted w = w\<lparr> ui := handleClearCompleted (ui w) \<rparr>"
| "step (SetFilter f) w = w\<lparr> ui := (ui w)\<lparr> filterType := f \<rparr> \<rparr>"
| "step DismissError w = w\<lparr> ui := (ui w)\<lparr> error := None \<rparr> \<rparr>"

text \<open>
  \<open>crypto.randomUUID()\<close> returns an id that is not in use: no task has it and no waiting
  continuation holds it.
\<close>

fun fresh :: "event \<Rightarrow> world \<Rightarrow> bool" where
  "fresh (SubmitAdd uuid) w =
     (uuid \<notin> todo_id ` set (todos (ui w)) \<and> uuid \<notin> fst ` set (inflight w))"
| "fresh _ w = True"

text \<open>
  The application starts with any restored collection, the initial values of the other
  state cells and no call in flight, and goes on by events; a run stops with \<open>None\<close> at
  an id that was not fresh.
\<close>

definition start :: "todo list \<Rightarrow> world" where
  "start ts = \<lparr> ui = \<lparr> todos = ts, inputText = [], filterType = FILTER_ALL, error = None \<rparr>,
                inflight = [] \<rparr>"

fun run :: "event list \<Rightarrow> world \<Rightarrow> world option" where
  "run [] w = Some w"
| "run (e # es) w = (if fresh e w then run es (step e w) else None)"

text \<open>
  What the proof carries along: the calls in flight are for different task ids, and every
  task that has a call in flight is marked as generating.
\<close>

definition inflight_marked :: "world \<Rightarrow> bool" where
  "inflight_marked w =
     (distinct (map fst (inflight w))
      \<and> (\<forall>p \<in> set (inflight w). \<forall>t \<in> set (todos (ui w)).
            todo_id t = fst p \<longrightarrow> isGenerating t = Some True))"

section \<open>Example data\<close>

text \<open>A store with a decomposed task, a completed task and a task being decomposed.\<close>

definition subFlights :: subtask where
  "subFlights = \<lparr> sub_id = js ''s1'', sub_text = js ''Book flights'', sub_completed = True \<rparr>"

definition subHotel :: subtask where
  "subHotel = \<lparr> sub_id = js ''s2'', sub_text = js ''Reserve hotel'', sub_completed = False \<rparr>"

definition todoTrip :: todo where
  "todoTrip = \<lparr> todo_id = js ''t1'', todo_text = js ''Plan trip'', completed = False,
                 isExpanded = True, subtasks = [subFlights, subHotel],
                 isGenerating = Some False \<rparr>"

definition todoMilk :: todo where
  "todoMilk = \<lparr> todo_id = js ''t2'', todo_text = js ''Buy milk'', completed = True,
                 isExpanded = False, subtasks = [], isGenerating = None \<rparr>"

definition todoEssay :: todo where
  "todoEssay = \<lparr> todo_id = js ''t3'', todo_text = js ''Write essay'', completed = False,
                  isExpanded = False, subtasks = [], isGenerating = Some True \<rparr>"

definition exampleState :: app_state where
  "exampleState = \<lparr> todos = [todoTrip, todoMilk, todoEssay], inputText = js ''  Call mom '',
                     filterType = FILTER_ALL, error = None \<rparr>"

text \<open>A stand-in for \<open>JSON.parse\<close> that accepts only the text \<open>[]\<close>.\<close>

definition parseOnlyEmptyArray :: "jsstring \<Rightarrow> todo list option" where
  "parseOnlyEmptyArray s = (if s = js ''[]'' then Some [] else None)"

text \<open>The example store with only blanks typed into the input field.\<close>

definition blankInputState :: app_state where
  "blankInputState = exampleState\<lparr> inputText := js ''   '' \<rparr>"

text \<open>
  A stand-in for \<open>JSON.parse\<close> on the service's answer, an API key, and the ids that
  \<open>crypto.randomUUID()\<close> hands out for the subtasks: \<open>u0\<close>, \<open>u1\<close>, ...
\<close>

definition parseExample :: "jsstring \<Rightarrow> parsed" where
  "parseExample s =
     (if s = js ''[]'' then Array []
      else if s = js ''{}'' then NotArray
      else Throws)"

definition exampleKey :: jsstring where
  "exampleKey = js ''key''"

definition exampleUuids :: "nat \<Rightarrow> jsstring" where
  "exampleUuids k = js ''u'' @ [of_nat (48 + k)]"

text \<open>
  A store with one task that was never decomposed, and what it becomes when
  \<open>handleGenerateSubtasks\<close> is called for that task.
\<close>

definition todoReport :: todo where
  "todoReport = \<lparr> todo_id = js ''t5'', todo_text = js ''Write report'', completed = False,
                   isExpanded = False, subtasks = [], isGenerating = None \<rparr>"

definition idleState :: app_state where
  "idleState = \<lparr> todos = [todoReport], inputText = [], filterType = FILTER_ALL,
                  error = None \<rparr>"

definition calledOnce :: app_state where
  "calledOnce = fst (handleGenerateSubtasks_begin (js ''t5'') (js ''Write report'') idleState)"

text \<open>The same store as a running application, with the Break Down button clicked twice.\<close>

definition idleWorld :: world where
  "idleWorld = start [todoReport]"

definition clickedTwice :: world where
  "clickedTwice = step (ClickBreakDown 0) (step (ClickBreakDown 0) idleWorld)"


section \<open>Clearing completed tasks\<close>

text \<open>
  C8. \<open>handleClearCompleted\<close> removes exactly the completed tasks: no task that is left is
  completed, every task that is not completed is kept as it was and as many times as it
  occurred, and the tasks that are left stand in their previous relative order.
\<close>

theorem clearCompleted_exact:
  "set (todos (handleClearCompleted st)) = {t \<in> set (todos st). \<not> completed t}
   \<and> subseq (todos (handleClearCompleted st)) (todos st)
   \<and> (\<forall>t. \<not> completed t \<longrightarrow>
         count_list (todos (handleClearCompleted st)) t = count_list (todos st) t)
   \<and> inputText (handleClearCompleted st) = inputText st
   \<and> filterType (handleClearCompleted st) = filterType st
   \<and> error (handleClearCompleted st) = error st"
proof -
  have keep: "\<not> completed t \<Longrightarrow> count_list (filter (\<lambda>t. \<not> completed t) xs) t = count_list xs t"
    for t :: todo and xs
    by (induction xs) auto
  show ?thesis
    by (simp add: handleClearCompleted_def keep)
qed

theorem clearCompleted_exact_witness:
  "\<not> completed todoTrip
   \<and> count_list (todos (handleClearCompleted exampleState)) todoTrip = 1
   \<and> todoMilk \<notin> set (todos (handleClearCompleted exampleState))"
proof -
  have a: "\<not> completed todoTrip" and b: "completed todoMilk"
    by (simp_all add: todoTrip_def todoMilk_def)
  have c: "count_list (todos exampleState) todoTrip = 1"
    by (simp add: exampleState_def todoTrip_def todoMilk_def todoEssay_def js_def)
  from clearCompleted_exact [of exampleState] a b c show ?thesis
    by simp
qed

section \<open>Toggling a task\<close>

text \<open>
  C5. For every task of the store with the given id, \<open>handleToggleTodo\<close> flips
  \<open>completed\<close>; when the flag becomes true every subtask's \<open>completed\<close> is set to true
  (and nothing else of the subtask changes), and when it becomes false the subtasks are
  left as they were.
\<close>

theorem toggleTodo_propagates_down:
  assumes "k < length (todos st)" and "todo_id (todos st ! k) = i"
  shows "let t = todos st ! k; t' = todos (handleToggleTodo i st) ! k in
           completed t' = (\<not> completed t)
           \<and> (completed t' \<longrightarrow>
                 list_all sub_completed (subtasks t')
                 \<and> subtasks t' = map (\<lambda>s. s\<lparr> sub_completed := True \<rparr>) (subtasks t))
           \<and> (\<not> completed t' \<longrightarrow> subtasks t' = subtasks t)
           \<and> todo_id t' = todo_id t \<and> todo_text t' = todo_text t
           \<and> isExpanded t' = isExpanded t \<and> isGenerating t' = isGenerating t"
  using assms by (simp add: handleToggleTodo_def Let_def list_all_iff)

theorem toggleTodo_propagates_down_witness:
  "completed (todos (handleToggleTodo (js ''t1'') exampleState) ! 0)
   \<and> list_all sub_completed (subtasks (todos (handleToggleTodo (js ''t1'') exampleState) ! 0))
   \<and> \<not> completed (todos (handleToggleTodo (js ''t2'') exampleState) ! 1)
   \<and> subtasks (todos (handleToggleTodo (js ''t2'') exampleState) ! 1) = []"
proof -
  let ?t1 = "todos (handleToggleTodo (js ''t1'') exampleState) ! 0"
  let ?t2 = "todos (handleToggleTodo (js ''t2'') exampleState) ! 1"
  have a: "0 < length (todos exampleState)" and b: "todo_id (todos exampleState ! 0) = js ''t1''"
    and c: "1 < length (todos exampleState)" and d: "todo_id (todos exampleState ! 1) = js ''t2''"
    by (simp_all add: exampleState_def todoTrip_def todoMilk_def)
  have e: "\<not> completed (todos exampleState ! 0)" and f: "completed (todos exampleState ! 1)"
    and g: "subtasks (todos exampleState ! 1) = []"
    by (simp_all add: exampleState_def todoTrip_def todoMilk_def)
  note up = toggleTodo_propagates_down [OF a b, unfolded Let_def]
  note down = toggleTodo_propagates_down [OF c d, unfolded Let_def]
  from up have u1: "completed ?t1 = (\<not> completed (todos exampleState ! 0))"
    by (elim conjE)
  with e have u2: "completed ?t1" by blast
  from up have "completed ?t1 \<longrightarrow>
      list_all sub_completed (subtasks ?t1)
      \<and> subtasks ?t1 = map (\<lambda>s. s\<lparr> sub_completed := True \<rparr>) (subtasks (todos exampleState ! 0))"
    by (elim conjE)
  with u2 have u3: "list_all sub_completed (subtasks ?t1)" by blast
  from down have d1: "completed ?t2 = (\<not> completed (todos exampleState ! 1))"
    by (elim conjE)
  with f have d2: "\<not> completed ?t2" by blast
  from down have "\<not> completed ?t2 \<longrightarrow> subtasks ?t2 = subtasks (todos exampleState ! 1)"
    by (elim conjE)
  with d2 g have d3: "subtasks ?t2 = []" by simp
  from u2 u3 d2 d3 show ?thesis by blast
qed

text \<open>
  C6, as the code has it. \<open>handleToggleTodo\<close> with an id that no task has does not fail:
  it returns the state it was given and raises no error, exactly as \<open>handleDeleteTodo\<close>
  does.
\<close>

theorem toggleTodo_absent_noop:
  assumes "i \<notin> todo_id ` set (todos st)"
  shows "handleToggleTodo i st = st \<and> handleDeleteTodo i st = st"
proof -
  have m: "st\<lparr> todos := map f (todos st) \<rparr> = st" if "\<forall>t \<in> set (todos st). f t = t" for f
    using that by (simp add: map_idI)
  have f: "filter (\<lambda>todo. todo_id todo \<noteq> i) (todos st) = todos st"
    using assms by (intro filter_True) auto
  have "handleToggleTodo i st = st"
    unfolding handleToggleTodo_def using assms by (intro m) auto
  moreover have "handleDeleteTodo i st = st"
    by (simp add: handleDeleteTodo_def f)
  ultimately show ?thesis by simp
qed

theorem toggleTodo_absent_noop_witness:
  "js ''zz'' \<notin> todo_id ` set (todos exampleState)
   \<and> handleToggleTodo (js ''zz'') exampleState = exampleState
   \<and> handleDeleteTodo (js ''zz'') exampleState = exampleState"
proof -
  have a: "js ''zz'' \<notin> todo_id ` set (todos exampleState)"
    by (simp add: exampleState_def todoTrip_def todoMilk_def todoEssay_def js_def)
  from a toggleTodo_absent_noop [OF a] show ?thesis by simp
qed

text \<open>
  C6, as the claim states it, fails: the id \<open>zz\<close> is not in the example store, and the
  call returns normally with the state unchanged and no error recorded.
\<close>

theorem toggleTodo_absent_counterexample:
  "js ''zz'' \<notin> todo_id ` set (todos exampleState)
   \<and> handleToggleTodo (js ''zz'') exampleState = exampleState
   \<and> error (handleToggleTodo (js ''zz'') exampleState) = None"
  by (simp add: handleToggleTodo_def exampleState_def todoTrip_def todoMilk_def todoEssay_def
      js_def)

section \<open>Toggling a subtask\<close>

text \<open>
  C4. For every task of the store with the given id, after \<open>handleToggleSubtask\<close> the
  task's \<open>completed\<close> is (subtasks non-empty) AND (all subtasks completed); so for a task
  with at least one subtask it equals the conjunction of the subtasks' flags. The
  subtasks with the given subtask id have their flag flipped, the others are unchanged.
\<close>

theorem toggleSubtask_parent_completed:
  assumes "k < length (todos st)" and "todo_id (todos st ! k) = todoId"
  shows "let t = todos st ! k; t' = todos (handleToggleSubtask todoId subtaskId st) ! k in
           completed t' = (subtasks t' \<noteq> [] \<and> list_all sub_completed (subtasks t'))
           \<and> (subtasks t' \<noteq> [] \<longrightarrow> completed t' = list_all sub_completed (subtasks t'))
           \<and> length (subtasks t') = length (subtasks t)
           \<and> (\<forall>j < length (subtasks t).
                 subtasks t' ! j =
                   (if sub_id (subtasks t ! j) = subtaskId
                    then (subtasks t ! j)\<lparr> sub_completed := \<not> sub_completed (subtasks t ! j) \<rparr>
                    else subtasks t ! j))"
  using assms by (auto simp add: handleToggleSubtask_def Let_def)

theorem toggleSubtask_parent_completed_witness:
  "subtasks (todos (handleToggleSubtask (js ''t1'') (js ''s2'') exampleState) ! 0) \<noteq> []
   \<and> completed (todos (handleToggleSubtask (js ''t1'') (js ''s2'') exampleState) ! 0)
   \<and> list_all sub_completed
        (subtasks (todos (handleToggleSubtask (js ''t1'') (js ''s2'') exampleState) ! 0))"
proof -
  have a: "0 < length (todos exampleState)" and b: "todo_id (todos exampleState ! 0) = js ''t1''"
    by (simp_all add: exampleState_def todoTrip_def)
  have c: "subtasks (todos exampleState ! 0) = [subFlights, subHotel]"
    by (simp add: exampleState_def todoTrip_def)
  have d: "sub_id subFlights \<noteq> js ''s2''" "sub_id subHotel = js ''s2''"
    "sub_completed subFlights" "\<not> sub_completed subHotel"
    by (simp_all add: subFlights_def subHotel_def js_def)
  let ?t' = "todos (handleToggleSubtask (js ''t1'') (js ''s2'') exampleState) ! 0"
  note inst = toggleSubtask_parent_completed [OF a b, of "js ''s2''", unfolded Let_def]
  from inst have len: "length (subtasks ?t') = length (subtasks (todos exampleState ! 0))"
    by (elim conjE)
  with c have ne: "subtasks ?t' \<noteq> []" by auto
  from inst have el: "\<forall>j < length (subtasks (todos exampleState ! 0)).
      subtasks ?t' ! j =
        (if sub_id (subtasks (todos exampleState ! 0) ! j) = js ''s2''
         then (subtasks (todos exampleState ! 0) ! j)
                \<lparr> sub_completed := \<not> sub_completed (subtasks (todos exampleState ! 0) ! j) \<rparr>
         else subtasks (todos exampleState ! 0) ! j)"
    by (elim conjE)
  have "sub_completed (subtasks ?t' ! j)" if "j < 2" for j
  proof -
    from that have "j = 0 \<or> j = 1" by auto
    with el c d show ?thesis by auto
  qed
  with len c have allc: "list_all sub_completed (subtasks ?t')"
    by (simp add: list_all_length)
  from inst have "completed ?t' = (subtasks ?t' \<noteq> [] \<and> list_all sub_completed (subtasks ?t'))"
    by (elim conjE)
  with ne allc have "completed ?t'" by simp
  with ne allc show ?thesis by simp
qed

text \<open>
  C10. For every task of the store with the given id, \<open>handleToggleSubtask\<close> with a
  subtask id that none of its subtasks has leaves the subtasks and every other field
  unchanged, and still sets \<open>completed\<close> to (subtasks non-empty) AND (all subtasks
  completed); on a task with no subtasks \<open>completed\<close> becomes false.
\<close>

theorem toggleSubtask_foreign_id:
  assumes "k < length (todos st)" and "todo_id (todos st ! k) = todoId"
    and "subtaskId \<notin> sub_id ` set (subtasks (todos st ! k))"
  shows "let t = todos st ! k; t' = todos (handleToggleSubtask todoId subtaskId st) ! k in
           t' = t\<lparr> completed := (subtasks t \<noteq> [] \<and> list_all sub_completed (subtasks t)) \<rparr>
           \<and> subtasks t' = subtasks t
           \<and> (subtasks t = [] \<longrightarrow> \<not> completed t')"
proof -
  have m: "map (\<lambda>s. if sub_id s = subtaskId then s\<lparr> sub_completed := \<not> sub_completed s \<rparr> else s)
             (subtasks (todos st ! k)) = subtasks (todos st ! k)"
    using assms(3) by (intro map_idI) auto
  show ?thesis
    using assms(1,2) by (simp add: handleToggleSubtask_def Let_def m conj_commute)
qed

theorem toggleSubtask_foreign_id_witness:
  "completed (todos exampleState ! 1) \<and> subtasks (todos exampleState ! 1) = []
   \<and> \<not> completed (todos (handleToggleSubtask (js ''t2'') (js ''s9'') exampleState) ! 1)"
proof -
  have a: "1 < length (todos exampleState)" and b: "todo_id (todos exampleState ! 1) = js ''t2''"
    and c: "js ''s9'' \<notin> sub_id ` set (subtasks (todos exampleState ! 1))"
    and d: "completed (todos exampleState ! 1)" "subtasks (todos exampleState ! 1) = []"
    by (simp_all add: exampleState_def todoMilk_def)
  from toggleSubtask_foreign_id [OF a b c] d show ?thesis
    by (simp add: Let_def)
qed

section \<open>Restoring the snapshot\<close>

text \<open>
  C9. When no snapshot is stored the initial collection is empty, and when
  \<open>JSON.parse\<close> throws on the stored text the initial collection is empty too: the
  initializer returns a value in both cases.
\<close>

theorem restore_fails_soft:
  "initialTodos parse None = []
   \<and> (parse s = None \<longrightarrow> initialTodos parse (Some s) = [])"
  by (simp add: initialTodos_def)

theorem restore_fails_soft_witness:
  "parseOnlyEmptyArray (js ''{oops'') = None
   \<and> initialTodos parseOnlyEmptyArray (Some (js ''{oops'')) = []"
proof -
  have a: "parseOnlyEmptyArray (js ''{oops'') = None"
    by (simp add: parseOnlyEmptyArray_def js_def)
  from restore_fails_soft [of parseOnlyEmptyArray "js ''{oops''"] a show ?thesis by simp
qed

section \<open>Adding a task\<close>

lemma dropWhile_hd_not: "dropWhile P xs \<noteq> [] \<Longrightarrow> \<not> P (hd (dropWhile P xs))"
  by (simp add: hd_dropWhile)

lemma trim_empty_iff: "trim s = [] \<longleftrightarrow> (\<forall>c \<in> set s. isWhiteSpace c)"
proof
  assume e: "trim s = []"
  show "\<forall>c \<in> set s. isWhiteSpace c"
  proof (rule ccontr)
    assume "\<not> (\<forall>c \<in> set s. isWhiteSpace c)"
    then have ne: "dropWhile isWhiteSpace s \<noteq> []"
      by (simp add: dropWhile_eq_Nil_conv)
    then have h: "\<not> isWhiteSpace (hd (dropWhile isWhiteSpace s))"
      by (rule dropWhile_hd_not)
    from e have "dropWhile isWhiteSpace (rev (dropWhile isWhiteSpace s)) = []"
      by (simp only: trim_def rev_is_Nil_conv)
    then have "\<forall>c \<in> set (rev (dropWhile isWhiteSpace s)). isWhiteSpace c"
      unfolding dropWhile_eq_Nil_conv .
    then have "\<forall>c \<in> set (dropWhile isWhiteSpace s). isWhiteSpace c"
      unfolding set_rev .
    with ne h show False
      by (meson hd_in_set)
  qed
next
  assume "\<forall>c \<in> set s. isWhiteSpace c"
  then have dw: "dropWhile isWhiteSpace s = []"
    unfolding dropWhile_eq_Nil_conv .
  show "trim s = []"
    by (simp only: trim_def dw rev.simps dropWhile.simps)
qed

text \<open>
  C7, as the code has it. When the typed text consists of white space only,
  \<open>handleAddTodo\<close> does not fail: it returns the state unchanged. Otherwise it puts
  exactly one new task in front of the previous tasks, which stay as they were and in
  their order; the new task has the id that \<open>crypto.randomUUID()\<close> returned, the trimmed
  text, \<open>completed = false\<close>, \<open>isExpanded = false\<close>, no subtasks and no \<open>isGenerating\<close>;
  the input field is cleared and the error is untouched. The id is fresh as far as
  \<open>crypto.randomUUID()\<close> returns one that no task has: the code compares nothing.
\<close>

theorem addTodo_behaviour:
  "(trim (inputText st) = [] \<longleftrightarrow> (\<forall>c \<in> set (inputText st). isWhiteSpace c))
   \<and> (trim (inputText st) = [] \<longrightarrow> handleAddTodo uuid st = st)
   \<and> (trim (inputText st) \<noteq> [] \<longrightarrow>
         todos (handleAddTodo uuid st) =
           \<lparr> todo_id = uuid, todo_text = trim (inputText st), completed = False,
             isExpanded = False, subtasks = [], isGenerating = None \<rparr> # todos st
         \<and> inputText (handleAddTodo uuid st) = []
         \<and> filterType (handleAddTodo uuid st) = filterType st
         \<and> error (handleAddTodo uuid st) = error st
         \<and> (uuid \<notin> todo_id ` set (todos st) \<longrightarrow>
               (\<forall>t \<in> set (todos st). todo_id t \<noteq> todo_id (hd (todos (handleAddTodo uuid st))))
               \<and> (distinct (map todo_id (todos st)) \<longrightarrow>
                     distinct (map todo_id (todos (handleAddTodo uuid st))))))"
proof -
  have a: "trim (inputText st) = [] \<longleftrightarrow> (\<forall>c \<in> set (inputText st). isWhiteSpace c)"
    by (rule trim_empty_iff)
  have b: "trim (inputText st) = [] \<longrightarrow> handleAddTodo uuid st = st"
    by (simp add: handleAddTodo_def)
  have c: "trim (inputText st) \<noteq> [] \<longrightarrow>
         todos (handleAddTodo uuid st) =
           \<lparr> todo_id = uuid, todo_text = trim (inputText st), completed = False,
             isExpanded = False, subtasks = [], isGenerating = None \<rparr> # todos st
         \<and> inputText (handleAddTodo uuid st) = []
         \<and> filterType (handleAddTodo uuid st) = filterType st
         \<and> error (handleAddTodo uuid st) = error st
         \<and> (uuid \<notin> todo_id ` set (todos st) \<longrightarrow>
               (\<forall>t \<in> set (todos st). todo_id t \<noteq> todo_id (hd (todos (handleAddTodo uuid st))))
               \<and> (distinct (map todo_id (todos st)) \<longrightarrow>
                     distinct (map todo_id (todos (handleAddTodo uuid st)))))"
    by (auto simp add: handleAddTodo_def Let_def)
  from a b c show ?thesis by (intro conjI)
qed

theorem addTodo_behaviour_witness:
  "trim (inputText exampleState) = js ''Call mom''
   \<and> js ''t4'' \<notin> todo_id ` set (todos exampleState)
   \<and> distinct (map todo_id (todos exampleState))
   \<and> todos (handleAddTodo (js ''t4'') exampleState) =
        \<lparr> todo_id = js ''t4'', todo_text = js ''Call mom'', completed = False,
          isExpanded = False, subtasks = [], isGenerating = None \<rparr> # todos exampleState
   \<and> distinct (map todo_id (todos (handleAddTodo (js ''t4'') exampleState)))
   \<and> trim (inputText blankInputState) = []
   \<and> handleAddTodo (js ''t4'') blankInputState = blankInputState"
proof -
  have t: "trim (inputText exampleState) = js ''Call mom''"
    by (simp add: exampleState_def trim_def js_def isWhiteSpace_def)
  then have ne: "trim (inputText exampleState) \<noteq> []"
    by (simp add: js_def)
  have f: "js ''t4'' \<notin> todo_id ` set (todos exampleState)"
    by (simp add: exampleState_def todoTrip_def todoMilk_def todoEssay_def js_def)
  have d: "distinct (map todo_id (todos exampleState))"
    by (simp add: exampleState_def todoTrip_def todoMilk_def todoEssay_def js_def)
  have bl: "trim (inputText blankInputState) = []"
    by (simp add: blankInputState_def trim_def js_def isWhiteSpace_def)
  note full = addTodo_behaviour [of exampleState "js ''t4''"]
  note blank = addTodo_behaviour [of blankInputState "js ''t4''"]
  from full ne have 1: "todos (handleAddTodo (js ''t4'') exampleState) =
        \<lparr> todo_id = js ''t4'', todo_text = trim (inputText exampleState), completed = False,
          isExpanded = False, subtasks = [], isGenerating = None \<rparr> # todos exampleState"
    by blast
  from full ne f d have 2: "distinct (map todo_id (todos (handleAddTodo (js ''t4'') exampleState)))"
    by blast
  from blank bl have 3: "handleAddTodo (js ''t4'') blankInputState = blankInputState"
    by blast
  from t f d 1 2 bl 3 show ?thesis by simp
qed

text \<open>
  C7, as the claim states it, fails: with three blanks in the input field the call
  returns normally, with the state unchanged and no error recorded.
\<close>

theorem addTodo_blank_counterexample:
  "trim (inputText blankInputState) = []
   \<and> handleAddTodo (js ''t4'') blankInputState = blankInputState
   \<and> error (handleAddTodo (js ''t4'') blankInputState) = None"
  by (simp add: handleAddTodo_def blankInputState_def exampleState_def trim_def js_def
      isWhiteSpace_def)

section \<open>Requesting a decomposition\<close>

text \<open>
  Every event keeps the calls in flight on different task ids and their tasks marked as
  generating.
\<close>

lemma handlers_keep_marks:
  "t' \<in> set (todos (handleToggleTodo i st)) \<Longrightarrow>
     \<exists>t \<in> set (todos st). todo_id t = todo_id t' \<and> isGenerating t = isGenerating t'"
  "t' \<in> set (todos (handleDeleteTodo i st)) \<Longrightarrow>
     \<exists>t \<in> set (todos st). todo_id t = todo_id t' \<and> isGenerating t = isGenerating t'"
  "t' \<in> set (todos (handleToggleSubtask i j st)) \<Longrightarrow>
     \<exists>t \<in> set (todos st). todo_id t = todo_id t' \<and> isGenerating t = isGenerating t'"
  "t' \<in> set (todos (handleExpand i st)) \<Longrightarrow>
     \<exists>t \<in> set (todos st). todo_id t = todo_id t' \<and> isGenerating t = isGenerating t'"
  "t' \<in> set (todos (handleClearCompleted st)) \<Longrightarrow>
     \<exists>t \<in> set (todos st). todo_id t = todo_id t' \<and> isGenerating t = isGenerating t'"
  by (auto simp add: handleToggleTodo_def handleDeleteTodo_def handleToggleSubtask_def
      handleExpand_def handleClearCompleted_def Let_def)

lemma addTodo_keeps_marks:
  "t' \<in> set (todos (handleAddTodo uuid st)) \<Longrightarrow>
     todo_id t' = uuid \<or> t' \<in> set (todos st)"
  by (auto simp add: handleAddTodo_def Let_def split: if_splits)

lemma marked_transfer:
  assumes "inflight_marked w" and "inflight w' = inflight w"
    and "\<And>t'. t' \<in> set (todos (ui w')) \<Longrightarrow>
           todo_id t' \<notin> fst ` set (inflight w)
           \<or> (\<exists>t \<in> set (todos (ui w)). todo_id t = todo_id t' \<and> isGenerating t = isGenerating t')"
  shows "inflight_marked w'"
  unfolding inflight_marked_def
proof (intro conjI ballI impI)
  show "distinct (map fst (inflight w'))"
    using assms(1,2) by (simp add: inflight_marked_def)
next
  fix p t'
  assume p: "p \<in> set (inflight w')" and t': "t' \<in> set (todos (ui w'))"
    and eq: "todo_id t' = fst p"
  from p assms(2) have pin: "p \<in> set (inflight w)" by simp
  with eq have "todo_id t' \<in> fst ` set (inflight w)" by (metis image_eqI)
  with assms(3) [OF t'] obtain t where "t \<in> set (todos (ui w))" "todo_id t = todo_id t'"
    "isGenerating t = isGenerating t'" by blast
  with assms(1) pin eq show "isGenerating t' = Some True"
    by (metis inflight_marked_def)
qed

lemma marked_breakDown:
  assumes "inflight_marked w"
  shows "inflight_marked (step (ClickBreakDown k) w)"
proof (cases "k < length (todos (ui w))
             \<and> breakDownRendered (todos (ui w) ! k) \<and> \<not> breakDownDisabled (todos (ui w) ! k)")
  case False
  then have "step (ClickBreakDown k) w = w"
    by (auto simp add: clickBreakDown_def)
  with assms show ?thesis by simp
next
  case True
  let ?t = "todos (ui w) ! k"
  let ?st' = "fst (handleGenerateSubtasks_begin (todo_id ?t) (todo_text ?t) (ui w))"
  from True have tin: "?t \<in> set (todos (ui w))" by simp
  from True have ng: "isGenerating ?t \<noteq> Some True" by (simp add: breakDownDisabled_def)
  have notin: "todo_id ?t \<notin> fst ` set (inflight w)"
  proof
    assume "todo_id ?t \<in> fst ` set (inflight w)"
    then obtain p where "p \<in> set (inflight w)" "todo_id ?t = fst p" by auto
    with assms tin have "isGenerating ?t = Some True"
      by (metis inflight_marked_def)
    with ng show False by simp
  qed
  from True have s: "step (ClickBreakDown k) w =
      \<lparr> ui = ?st', inflight = inflight w @ [(todo_id ?t, todo_text ?t)] \<rparr>"
    by (simp add: clickBreakDown_def handleGenerateSubtasks_begin_def)
  have d: "distinct (map fst (inflight w @ [(todo_id ?t, todo_text ?t)]))"
    using assms notin by (simp add: inflight_marked_def)
  have m: "isGenerating t' = Some True"
    if "p \<in> set (inflight w @ [(todo_id ?t, todo_text ?t)])" and "t' \<in> set (todos ?st')"
      and "todo_id t' = fst p" for p t'
  proof (cases "todo_id t' = todo_id ?t")
    case True
    with that(2) show ?thesis
      by (auto simp add: handleGenerateSubtasks_begin_def)
  next
    case False
    with that(1,3) have pin: "p \<in> set (inflight w)" by auto
    from False that(2) have "t' \<in> set (todos (ui w))"
      by (auto simp add: handleGenerateSubtasks_begin_def split: if_splits)
    with assms pin that(3) show ?thesis
      by (metis inflight_marked_def)
  qed
  show ?thesis
    unfolding s inflight_marked_def using d m by auto
qed

lemma marked_settle:
  assumes "inflight_marked w"
  shows "inflight_marked (step (Settle n result uuids) w)"
proof (cases "n < length (inflight w)")
  case False
  with assms show ?thesis by simp
next
  case True
  let ?p = "inflight w ! n"
  let ?rest = "take n (inflight w) @ drop (Suc n) (inflight w)"
  let ?st' = "handleGenerateSubtasks_settle (fst ?p) result uuids (ui w)"
  from True have split: "inflight w = take n (inflight w) @ ?p # drop (Suc n) (inflight w)"
    by (rule id_take_nth_drop)
  from assms have "distinct (map fst (inflight w))" by (simp add: inflight_marked_def)
  then have "distinct (map fst (take n (inflight w) @ ?p # drop (Suc n) (inflight w)))"
    using split by simp
  then have d: "distinct (map fst ?rest)" and notin: "fst ?p \<notin> fst ` set ?rest"
    by auto
  have sub: "set ?rest \<subseteq> set (inflight w)"
    by (auto dest: in_set_takeD in_set_dropD)
  have old: "\<exists>t \<in> set (todos (ui w)). todo_id t = todo_id t' \<and> isGenerating t = isGenerating t'"
    if "t' \<in> set (todos ?st')" and "todo_id t' \<noteq> fst ?p" for t'
    using that by (cases result) (auto simp add: handleGenerateSubtasks_settle_def Let_def)
  have m: "isGenerating t' = Some True"
    if "q \<in> set ?rest" and "t' \<in> set (todos ?st')" and "todo_id t' = fst q" for q t'
  proof -
    from that(1) notin have "fst q \<noteq> fst ?p" by (metis image_eqI)
    with that(3) have "todo_id t' \<noteq> fst ?p" by simp
    with old [OF that(2)] obtain t where "t \<in> set (todos (ui w))" "todo_id t = todo_id t'"
      "isGenerating t = isGenerating t'" by blast
    moreover from that(1) sub have "q \<in> set (inflight w)" by blast
    ultimately show ?thesis
      using assms that(3) by (metis inflight_marked_def)
  qed
  from True have s: "step (Settle n result uuids) w = \<lparr> ui = ?st', inflight = ?rest \<rparr>"
    by simp
  show ?thesis
    unfolding s inflight_marked_def using d m by auto
qed

lemma marked_step:
  assumes "inflight_marked w" and "fresh e w"
  shows "inflight_marked (step e w)"
proof (cases e)
  case (SetInputText s)
  with assms(1) show ?thesis by (simp add: inflight_marked_def)
next
  case (SubmitAdd uuid)
  with assms(2) have f: "uuid \<notin> fst ` set (inflight w)" by simp
  show ?thesis
  proof (rule marked_transfer [OF assms(1)])
    show "inflight (step e w) = inflight w" using SubmitAdd by simp
  next
    fix t' assume "t' \<in> set (todos (ui (step e w)))"
    with SubmitAdd have "todo_id t' = uuid \<or> t' \<in> set (todos (ui w))"
      by (simp add: addTodo_keeps_marks)
    with f show "todo_id t' \<notin> fst ` set (inflight w)
           \<or> (\<exists>t \<in> set (todos (ui w)). todo_id t = todo_id t' \<and> isGenerating t = isGenerating t')"
      by auto
  qed
next
  case (ClickToggle i)
  show ?thesis
    by (rule marked_transfer [OF assms(1)]) (simp_all add: ClickToggle handlers_keep_marks)
next
  case (ClickDelete i)
  show ?thesis
    by (rule marked_transfer [OF assms(1)]) (simp_all add: ClickDelete handlers_keep_marks)
next
  case (ClickSubtask i j)
  show ?thesis
    by (rule marked_transfer [OF assms(1)]) (simp_all add: ClickSubtask handlers_keep_marks)
next
  case (ClickExpand i)
  show ?thesis
    by (rule marked_transfer [OF assms(1)]) (simp_all add: ClickExpand handlers_keep_marks)
next
  case (ClickBreakDown k)
  with assms(1) show ?thesis by (simp only: marked_breakDown)
next
  case (Settle n result uuids)
  with assms(1) show ?thesis by (simp only: marked_settle)
next
  case ClickClearCompleted
  show ?thesis
    by (rule marked_transfer [OF assms(1)]) (simp_all add: ClickClearCompleted handlers_keep_marks)
next
  case (SetFilter f)
  with assms(1) show ?thesis by (simp add: inflight_marked_def)
next
  case DismissError
  with assms(1) show ?thesis by (simp add: inflight_marked_def)
qed

lemma run_marked: "inflight_marked w \<Longrightarrow> run es w = Some w' \<Longrightarrow> inflight_marked w'"
proof (induction es arbitrary: w)
  case Nil
  then show ?case by simp
next
  case (Cons e es)
  from Cons.prems(2) have f: "fresh e w" and r: "run es (step e w) = Some w'"
    by (simp_all split: if_splits)
  from Cons.prems(1) f have "inflight_marked (step e w)"
    by (rule marked_step)
  with r show ?case
    by (rule Cons.IH [rotated])
qed

lemma start_marked: "inflight_marked (start ts)"
  by (simp add: inflight_marked_def start_def)

text \<open>
  C1, as the code has it. \<open>handleGenerateSubtasks\<close> never fails and does not look at
  \<open>isGenerating\<close>: whenever it is called it marks every task with the id as generating
  (and leaves the other tasks as they are), clears the error and calls
  \<open>generateSubtasks\<close> with the text it was given. The guard is the Break Down button of
  \<open>TodoItem\<close>: a click calls the handler exactly when the task has no subtasks, is not
  completed and is not generating; a click on the button of a task whose \<open>isGenerating\<close>
  is true calls nothing and changes nothing. So, for the events of the rendered
  application, with \<open>crypto.randomUUID()\<close> returning ids that are not in use, at most one
  call is in flight per task id at any time, and every task with a call in flight is
  marked as generating.
\<close>

theorem breakDown_gate:
  "handleGenerateSubtasks_begin i txt st =
     (st\<lparr> todos := map (\<lambda>t. if todo_id t = i then t\<lparr> isGenerating := Some True \<rparr> else t)
                        (todos st),
          error := None \<rparr>, txt)
   \<and> length (todos (fst (handleGenerateSubtasks_begin i txt st))) = length (todos st)
   \<and> (\<forall>k < length (todos st).
         todos (fst (handleGenerateSubtasks_begin i txt st)) ! k =
           (if todo_id (todos st ! k) = i then (todos st ! k)\<lparr> isGenerating := Some True \<rparr>
            else todos st ! k))
   \<and> clickBreakDown t st =
         (if subtasks t = [] \<and> \<not> completed t \<and> isGenerating t \<noteq> Some True
          then (fst (handleGenerateSubtasks_begin (todo_id t) (todo_text t) st),
                Some (todo_text t))
          else (st, None))
   \<and> (isGenerating t = Some True \<longrightarrow> clickBreakDown t st = (st, None))
   \<and> (run es (start ts) = Some w \<longrightarrow>
         distinct (map fst (inflight w))
         \<and> (\<forall>p \<in> set (inflight w). \<forall>u \<in> set (todos (ui w)).
               todo_id u = fst p \<longrightarrow> isGenerating u = Some True))"
proof -
  have a: "handleGenerateSubtasks_begin i txt st =
     (st\<lparr> todos := map (\<lambda>t. if todo_id t = i then t\<lparr> isGenerating := Some True \<rparr> else t)
                        (todos st),
          error := None \<rparr>, txt)"
    by (simp add: handleGenerateSubtasks_begin_def)
  have b: "length (todos (fst (handleGenerateSubtasks_begin i txt st))) = length (todos st)"
    by (simp add: handleGenerateSubtasks_begin_def)
  have c: "\<forall>k < length (todos st).
         todos (fst (handleGenerateSubtasks_begin i txt st)) ! k =
           (if todo_id (todos st ! k) = i then (todos st ! k)\<lparr> isGenerating := Some True \<rparr>
            else todos st ! k)"
    by (simp add: handleGenerateSubtasks_begin_def)
  have d: "clickBreakDown t st =
         (if subtasks t = [] \<and> \<not> completed t \<and> isGenerating t \<noteq> Some True
          then (fst (handleGenerateSubtasks_begin (todo_id t) (todo_text t) st),
                Some (todo_text t))
          else (st, None))"
    by (simp add: clickBreakDown_def breakDownRendered_def breakDownDisabled_def
        handleGenerateSubtasks_begin_def)
  have e: "isGenerating t = Some True \<longrightarrow> clickBreakDown t st = (st, None)"
    by (simp add: clickBreakDown_def breakDownDisabled_def)
  have f: "run es (start ts) = Some w \<longrightarrow>
         distinct (map fst (inflight w))
         \<and> (\<forall>p \<in> set (inflight w). \<forall>u \<in> set (todos (ui w)).
               todo_id u = fst p \<longrightarrow> isGenerating u = Some True)"
    using run_marked [OF start_marked, of es ts w] by (simp add: inflight_marked_def)
  from a b c d e f show ?thesis by (intro conjI)
qed

theorem breakDown_gate_witness:
  "isGenerating (todos calledOnce ! 0) = Some True
   \<and> clickBreakDown (todos calledOnce ! 0) calledOnce = (calledOnce, None)
   \<and> clickBreakDown todoReport idleState = (calledOnce, Some (js ''Write report''))
   \<and> todos calledOnce = [todoReport\<lparr> isGenerating := Some True \<rparr>]
   \<and> clickBreakDown todoTrip exampleState = (exampleState, None)
   \<and> clickBreakDown todoMilk exampleState = (exampleState, None)
   \<and> run [ClickBreakDown 0, ClickBreakDown 0] (start [todoReport]) = Some clickedTwice
   \<and> inflight clickedTwice = [(js ''t5'', js ''Write report'')]
   \<and> distinct (map fst (inflight clickedTwice))"
proof -
  have g: "isGenerating (todos calledOnce ! 0) = Some True"
    by (simp add: calledOnce_def handleGenerateSubtasks_begin_def idleState_def todoReport_def)
  have r: "run [ClickBreakDown 0, ClickBreakDown 0] (start [todoReport]) = Some clickedTwice"
    by (simp add: clickedTwice_def idleWorld_def)
  note gate = breakDown_gate [of "js ''t5''" "js ''Write report''" calledOnce
      "todos calledOnce ! 0" "[ClickBreakDown 0, ClickBreakDown 0]" "[todoReport]" clickedTwice]
  from gate g have c: "clickBreakDown (todos calledOnce ! 0) calledOnce = (calledOnce, None)"
    by blast
  have idle: "subtasks todoReport = [] \<and> \<not> completed todoReport
      \<and> isGenerating todoReport \<noteq> Some True"
    and ids: "todo_id todoReport = js ''t5''" "todo_text todoReport = js ''Write report''"
    by (simp_all add: todoReport_def)
  have trip: "subtasks todoTrip \<noteq> []" and milk: "completed todoMilk"
    by (simp_all add: todoTrip_def todoMilk_def)
  note first = breakDown_gate [of "js ''t5''" "js ''Write report''" idleState todoReport
      "[]" "[]" "start []"]
  note click = first [THEN conjunct2, THEN conjunct2, THEN conjunct2, THEN conjunct1]
  from click idle ids have k: "clickBreakDown todoReport idleState =
      (calledOnce, Some (js ''Write report''))"
    by (simp add: calledOnce_def)
  from first have "todos (fst (handleGenerateSubtasks_begin (js ''t5'') (js ''Write report'')
        idleState)) =
      map (\<lambda>t. if todo_id t = js ''t5'' then t\<lparr> isGenerating := Some True \<rparr> else t)
        (todos idleState)"
    by simp
  with ids have m: "todos calledOnce = [todoReport\<lparr> isGenerating := Some True \<rparr>]"
    by (simp add: calledOnce_def idleState_def)
  note clickTrip = breakDown_gate [of "js ''t5''" "js ''Write report''" exampleState todoTrip
      "[]" "[]" "start []", THEN conjunct2, THEN conjunct2, THEN conjunct2, THEN conjunct1]
  note clickMilk = breakDown_gate [of "js ''t5''" "js ''Write report''" exampleState todoMilk
      "[]" "[]" "start []", THEN conjunct2, THEN conjunct2, THEN conjunct2, THEN conjunct1]
  from clickTrip trip have kt: "clickBreakDown todoTrip exampleState = (exampleState, None)"
    by simp
  from clickMilk milk have km: "clickBreakDown todoMilk exampleState = (exampleState, None)"
    by simp
  have iw: "idleWorld = \<lparr> ui = idleState, inflight = [] \<rparr>"
    by (simp add: idleWorld_def start_def idleState_def)
  have td: "todos idleState = [todoReport]"
    by (simp add: idleState_def)
  have w1: "step (ClickBreakDown 0) idleWorld =
      \<lparr> ui = calledOnce, inflight = [(js ''t5'', js ''Write report'')] \<rparr>"
    by (simp add: iw td k ids)
  have l: "0 < length (todos calledOnce)"
    by (simp add: m)
  have w2: "inflight clickedTwice = [(js ''t5'', js ''Write report'')]"
    unfolding clickedTwice_def w1 using l by (simp add: c)
  from gate r have d: "distinct (map fst (inflight clickedTwice))"
    by blast
  from g c k m kt km r w2 d show ?thesis by (intro conjI)
qed

text \<open>
  C1, as the claim states it, fails: after one call for the task \<open>t5\<close> the task is
  marked as generating, and a second call of \<open>handleGenerateSubtasks\<close> for it returns
  normally, calls \<open>generateSubtasks\<close> once more and records no error.
\<close>

theorem second_call_counterexample:
  "isGenerating (todos calledOnce ! 0) = Some True
   \<and> handleGenerateSubtasks_begin (js ''t5'') (js ''Write report'') calledOnce
       = (calledOnce, js ''Write report'')
   \<and> error calledOnce = None"
  by (simp add: calledOnce_def handleGenerateSubtasks_begin_def idleState_def todoReport_def)

section \<open>Settling a decomposition\<close>

text \<open>
  C2, as the code has it. With an API key, \<open>generateSubtasks\<close> resolves with the empty
  array exactly when the response has no text, an empty text, or a text that parses to
  something that is not an array or to the empty array; it rejects exactly when the request
  rejects or \<open>JSON.parse\<close> throws. An empty array is handled as a success: every task
  with the id gets \<open>isGenerating = false\<close>, \<open>isExpanded = true\<close> and no subtasks, and the
  error is left as it was. Only a rejection sets the error message, and then the task only
  gets \<open>isGenerating = false\<close>.
\<close>

theorem empty_decomposition_is_success:
  assumes "apiKey \<noteq> []"
  shows "(generateSubtasks apiKey parse resp txt = Inr [] \<longleftrightarrow>
            resp = Resolves None \<or> resp = Resolves (Some [])
            \<or> (\<exists>s. resp = Resolves (Some s) \<and> (parse s = NotArray \<or> parse s = Array [])))
         \<and> ((\<exists>e. generateSubtasks apiKey parse resp txt = Inl e) \<longleftrightarrow>
            (\<exists>e. resp = Rejects e)
            \<or> (\<exists>s. resp = Resolves (Some s) \<and> s \<noteq> [] \<and> parse s = Throws))
         \<and> error (handleGenerateSubtasks_settle i (Inr []) uuids st) = error st
         \<and> (\<forall>k < length (todos st). todo_id (todos st ! k) = i \<longrightarrow>
               todos (handleGenerateSubtasks_settle i (Inr []) uuids st) ! k =
                 (todos st ! k)\<lparr> isGenerating := Some False, isExpanded := True,
                                 subtasks := [] \<rparr>)
         \<and> error (handleGenerateSubtasks_settle i (Inl e) uuids st) = Some errorMessage
         \<and> (\<forall>k < length (todos st). todo_id (todos st ! k) = i \<longrightarrow>
               todos (handleGenerateSubtasks_settle i (Inl e) uuids st) ! k =
                 (todos st ! k)\<lparr> isGenerating := Some False \<rparr>)"
proof -
  have a: "generateSubtasks apiKey parse resp txt = Inr [] \<longleftrightarrow>
            resp = Resolves None \<or> resp = Resolves (Some [])
            \<or> (\<exists>s. resp = Resolves (Some s) \<and> (parse s = NotArray \<or> parse s = Array []))"
    using assms
    by (auto simp add: generateSubtasks_def split: response.splits option.splits parsed.splits)
  have b: "(\<exists>e. generateSubtasks apiKey parse resp txt = Inl e) \<longleftrightarrow>
            (\<exists>e. resp = Rejects e)
            \<or> (\<exists>s. resp = Resolves (Some s) \<and> s \<noteq> [] \<and> parse s = Throws)"
    using assms
    by (auto simp add: generateSubtasks_def split: response.splits option.splits parsed.splits)
  have c: "error (handleGenerateSubtasks_settle i (Inr []) uuids st) = error st"
    "error (handleGenerateSubtasks_settle i (Inl e) uuids st) = Some errorMessage"
    by (simp_all add: handleGenerateSubtasks_settle_def)
  have d: "\<forall>k < length (todos st). todo_id (todos st ! k) = i \<longrightarrow>
               todos (handleGenerateSubtasks_settle i (Inr []) uuids st) ! k =
                 (todos st ! k)\<lparr> isGenerating := Some False, isExpanded := True,
                                 subtasks := [] \<rparr>"
    by (simp add: handleGenerateSubtasks_settle_def enumerate_eq_zip)
  have e: "\<forall>k < length (todos st). todo_id (todos st ! k) = i \<longrightarrow>
               todos (handleGenerateSubtasks_settle i (Inl e) uuids st) ! k =
                 (todos st ! k)\<lparr> isGenerating := Some False \<rparr>"
    by (simp add: handleGenerateSubtasks_settle_def)
  from a b c d e show ?thesis by (intro conjI)
qed

theorem empty_decomposition_is_success_witness:
  "exampleKey \<noteq> []
   \<and> parseExample (js ''{}'') = NotArray
   \<and> generateSubtasks exampleKey parseExample (Resolves (Some (js ''{}''))) (js ''Write essay'')
       = Inr []
   \<and> 2 < length (todos exampleState) \<and> todo_id (todos exampleState ! 2) = js ''t3''
   \<and> todos (handleGenerateSubtasks_settle (js ''t3'') (Inr []) exampleUuids exampleState) ! 2 =
        (todos exampleState ! 2)\<lparr> isGenerating := Some False, isExpanded := True,
                                  subtasks := [] \<rparr>"
proof -
  have k: "exampleKey \<noteq> []"
    by (simp add: exampleKey_def js_def)
  have p: "parseExample (js ''{}'') = NotArray"
    by (simp add: parseExample_def js_def)
  have l: "2 < length (todos exampleState)" and i: "todo_id (todos exampleState ! 2) = js ''t3''"
    by (simp_all add: exampleState_def todoEssay_def)
  note inst = empty_decomposition_is_success [OF k, of parseExample
      "Resolves (Some (js ''{}''))" "js ''Write essay''" "js ''t3''" exampleUuids exampleState]
  from inst p have 1: "generateSubtasks exampleKey parseExample (Resolves (Some (js ''{}'')))
      (js ''Write essay'') = Inr []"
    by blast
  from inst l i have 2:
    "todos (handleGenerateSubtasks_settle (js ''t3'') (Inr []) exampleUuids exampleState) ! 2 =
        (todos exampleState ! 2)\<lparr> isGenerating := Some False, isExpanded := True,
                                  subtasks := [] \<rparr>"
    by blast
  from k p 1 l i 2 show ?thesis by (intro conjI)
qed

text \<open>
  C2, as the claim states it, fails: the service answers \<open>[]\<close>, \<open>generateSubtasks\<close>
  resolves with the empty array, and the task \<open>t3\<close> ends with no subtasks, not
  generating, expanded and without any error, which is not what a failure gives.
\<close>

theorem empty_decomposition_counterexample:
  "generateSubtasks exampleKey parseExample (Resolves (Some (js ''[]''))) (js ''Write essay'')
     = Inr []
   \<and> todos (handleGenerateSubtasks_settle (js ''t3'') (Inr []) exampleUuids exampleState) ! 2 =
       todoEssay\<lparr> isGenerating := Some False, isExpanded := True \<rparr>
   \<and> subtasks (todos (handleGenerateSubtasks_settle (js ''t3'') (Inr []) exampleUuids
                        exampleState) ! 2) = []
   \<and> error (handleGenerateSubtasks_settle (js ''t3'') (Inr []) exampleUuids exampleState) = None
   \<and> error (handleGenerateSubtasks_settle (js ''t3'') (Inl ServiceError) exampleUuids
               exampleState) = Some errorMessage
   \<and> handleGenerateSubtasks_settle (js ''t3'') (Inr []) exampleUuids exampleState
       \<noteq> handleGenerateSubtasks_settle (js ''t3'') (Inl ServiceError) exampleUuids exampleState"
proof -
  let ?ok = "handleGenerateSubtasks_settle (js ''t3'') (Inr []) exampleUuids exampleState"
  let ?ko = "handleGenerateSubtasks_settle (js ''t3'') (Inl ServiceError) exampleUuids exampleState"
  have 1: "generateSubtasks exampleKey parseExample (Resolves (Some (js ''[]'')))
      (js ''Write essay'') = Inr []"
    by (simp add: generateSubtasks_def exampleKey_def parseExample_def js_def)
  have 2: "todos ?ok ! 2 = todoEssay\<lparr> isGenerating := Some False, isExpanded := True \<rparr>"
    by (simp add: handleGenerateSubtasks_settle_def exampleState_def todoTrip_def todoMilk_def
        todoEssay_def js_def)
  have 3: "subtasks (todos ?ok ! 2) = []"
    by (simp add: 2) (simp add: todoEssay_def)
  have 4: "error ?ok = None"
    by (simp add: handleGenerateSubtasks_settle_def exampleState_def)
  have 5: "error ?ko = Some errorMessage"
    by (simp add: handleGenerateSubtasks_settle_def)
  from 4 5 have 6: "?ok \<noteq> ?ko" by auto
  from 1 2 3 4 5 6 show ?thesis by (intro conjI)
qed






end
